theory Spec2Isabelle
  imports Complex_Main "HOL-Library.AList"
begin

section \<open>Values, exceptions and strings\<close>

text \<open>
  Numbers are exact rationals: the finite floating-point values of the program, with
  rounding and overflow left out. The three special values of numpy arithmetic are kept
  as constructors of their own wherever the program produces or tests them.
\<close>

datatype fval = Fin rat | PInf | NInf | NaN

datatype error = ValueError | KeyError | TypeError | AttributeError | DetectorError

text \<open>numpy division of a finite value by a finite value: no exception on a zero divisor.\<close>

definition np_divide :: "rat \<Rightarrow> rat \<Rightarrow> fval" where
  "np_divide a b =
     (if b \<noteq> 0 then Fin (a / b)
      else if 0 < a then PInf
      else if a < 0 then NInf
      else NaN)"

text \<open>The comparison \<open>a < b\<close> of numpy: false as soon as one side is NaN.\<close>

fun fval_less :: "fval \<Rightarrow> fval \<Rightarrow> bool" where
  "fval_less (Fin a) (Fin b) = (a < b)"
| "fval_less (Fin a) PInf = True"
| "fval_less (Fin a) NInf = False"
| "fval_less (Fin a) NaN = False"
| "fval_less PInf b = False"
| "fval_less NInf (Fin b) = True"
| "fval_less NInf PInf = True"
| "fval_less NInf NInf = False"
| "fval_less NInf NaN = False"
| "fval_less NaN b = False"

text \<open>\<open>s.endswith(suf)\<close>.\<close>

definition endswith :: "string \<Rightarrow> string \<Rightarrow> bool" where
  "endswith s suf = (length suf \<le> length s \<and> drop (length s - length suf) s = suf)"

text \<open>
  \<open>s.replace(old, new)\<close>: every occurrence of \<open>old\<close>, found from the left and not
  overlapping, is replaced. The program only calls it with a non-empty \<open>old\<close>.
\<close>

fun str_replace :: "string \<Rightarrow> string \<Rightarrow> string \<Rightarrow> string" where
  "str_replace old new [] = []"
| "str_replace old new (c # cs) =
     (if old \<noteq> [] \<and> take (length old) (c # cs) = old
      then new @ str_replace old new (drop (length old) (c # cs))
      else c # str_replace old new cs)"

section \<open>The detection pipeline (pipeline/detect.py)\<close>

text \<open>
  A detector is what \<open>detect\<close> uses of a loaded model: \<open>predict\<close>, and the two scoring
  methods, each of which the object may or may not have (\<open>hasattr\<close>). A call returns an
  array or raises.
\<close>

type_synonym matrix = "rat list list"

record detector =
  predict :: "matrix \<Rightarrow> error + rat list"
  score_samples :: "(matrix \<Rightarrow> error + rat list) option"
  decision_function :: "(matrix \<Rightarrow> error + rat list) option"

text \<open>
  The result table: an index of \<open>index_len\<close> rows and the numeric columns in insertion
  order, labels unique. The boolean column \<open>is_anomaly\<close> is kept beside it.
\<close>

record results =
  index_len :: nat
  cols :: "(string \<times> rat list) list"

record verdicts =
  table :: results
  is_anomaly :: "bool list"

text \<open>The \<open>ensemble\<close> section of the configuration; \<open>None\<close> is an absent key.\<close>

record ensemble_config =
  cfg_enabled :: "bool option"
  cfg_method :: "string option"
  cfg_weights :: "(string \<rightharpoonup> rat) option"

definition get_enabled :: "ensemble_config \<Rightarrow> bool" where
  "get_enabled cfg = (case cfg_enabled cfg of None \<Rightarrow> True | Some b \<Rightarrow> b)"

definition get_method :: "ensemble_config \<Rightarrow> string" where
  "get_method cfg = (case cfg_method cfg of None \<Rightarrow> ''voting'' | Some m \<Rightarrow> m)"

definition get_weights :: "ensemble_config \<Rightarrow> (string \<rightharpoonup> rat)" where
  "get_weights cfg = (case cfg_weights cfg of None \<Rightarrow> Map.empty | Some w \<Rightarrow> w)"

text \<open>
  \<open>results[c] = v\<close> for an array \<open>v\<close>: pandas raises ValueError unless the array is as long
  as the index; an existing column is replaced in place, a new one is appended.
\<close>

definition set_column :: "results \<Rightarrow> string \<Rightarrow> rat list \<Rightarrow> error + results" where
  "set_column r c v =
     (if length v = index_len r then Inr (r\<lparr>cols := AList.update c v (cols r)\<rparr>)
      else Inl ValueError)"

text \<open>The scoring method \<open>detect\<close> picks: \<open>score_samples\<close> first, else \<open>decision_function\<close>.\<close>

definition score_fn :: "detector \<Rightarrow> (matrix \<Rightarrow> error + rat list) option" where
  "score_fn m = (case score_samples m of Some f \<Rightarrow> Some f | None \<Rightarrow> decision_function m)"

text \<open>
  One turn of the loop over the registry. The \<open>try\<close> block covers the prediction, its
  assignment, the scoring and its assignment; the handler only logs, so what was assigned
  before the exception stays.
\<close>

definition run_model :: "matrix \<Rightarrow> results \<Rightarrow> string \<times> detector \<Rightarrow> results" where
  "run_model X r nm =
     (case nm of (model_name, model) \<Rightarrow>
        (case predict model X of
           Inl e \<Rightarrow> r
         | Inr predictions \<Rightarrow>
             (case set_column r (model_name @ ''_prediction'') predictions of
                Inl e \<Rightarrow> r
              | Inr r1 \<Rightarrow>
                  (case score_fn model of
                     None \<Rightarrow> r1
                   | Some f \<Rightarrow>
                       (case f X of
                          Inl e \<Rightarrow> r1
                        | Inr scores \<Rightarrow>
                            (case set_column r1 (model_name @ ''_score'') scores of
                               Inl e \<Rightarrow> r1
                             | Inr r2 \<Rightarrow> r2))))))"

definition pred_cols :: "results \<Rightarrow> (string \<times> rat list) list" where
  "pred_cols r = filter (\<lambda>cv. endswith (fst cv) ''_prediction'') (cols r)"

definition score_cols :: "results \<Rightarrow> (string \<times> rat list) list" where
  "score_cols r = filter (\<lambda>cv. endswith (fst cv) ''_score'') (cols r)"

text \<open>Row \<open>i\<close> of a selection of columns.\<close>

definition row_at :: "(string \<times> rat list) list \<Rightarrow> nat \<Rightarrow> rat list" where
  "row_at cs i = map (\<lambda>cv. snd cv ! i) cs"

text \<open>
  \<open>Series.mode()\<close>: the values that occur most often, sorted in ascending order.
\<close>

definition max_count :: "rat list \<Rightarrow> nat" where
  "max_count xs = fold max (map (count_list xs) xs) 0"

definition modes :: "rat list \<Rightarrow> rat list" where
  "modes xs = sort (remdups (filter (\<lambda>x. count_list xs x = max_count xs) xs))"

text \<open>
  \<open>results[pred_cols].mode(axis=1)[0]\<close>: column 0 of the table of row modes. On a table
  without rows \<open>mode\<close> returns the table's own columns, so that the label 0 is a KeyError.
  A row of a non-empty selection has a mode; the \<open>[]\<close> case below is never reached then.
\<close>

definition mode_vote :: "results \<Rightarrow> (string \<times> rat list) list \<Rightarrow> error + rat list" where
  "mode_vote r pcs =
     (if index_len r = 0 then Inl KeyError
      else Inr (map (\<lambda>i. case modes (row_at pcs i) of [] \<Rightarrow> 0 | m # ms \<Rightarrow> m)
                  [0..<index_len r]))"

text \<open>The loop of the weighted rule: the running weighted sum and the running total weight.\<close>

fun weighted_loop ::
  "(string \<rightharpoonup> rat) \<Rightarrow> (string \<times> rat list) list \<Rightarrow> rat list \<times> rat \<Rightarrow> rat list \<times> rat" where
  "weighted_loop ws [] acc = acc"
| "weighted_loop ws ((col, v) # rest) (weighted_sum, total_weight) =
     (let model_name = str_replace ''_prediction'' [] col;
          weight = (case ws model_name of None \<Rightarrow> 1 | Some w \<Rightarrow> w)
      in weighted_loop ws rest
           (map2 (\<lambda>s p. s + p * weight) weighted_sum v, total_weight + weight))"

definition ensemble_predict :: "ensemble_config \<Rightarrow> results \<Rightarrow> error + rat list" where
  "ensemble_predict cfg r =
     (let pcs = pred_cols r in
      if pcs = [] then Inr (replicate (index_len r) 1)
      else if get_method cfg = ''voting'' then mode_vote r pcs
      else if get_method cfg = ''weighted'' then
        (case weighted_loop (get_weights cfg) pcs (replicate (index_len r) 0, 0) of
           (weighted_sum, total_weight) \<Rightarrow>
             Inr (map (\<lambda>s. if fval_less (np_divide s total_weight) (Fin 0) then - 1 else 1)
                    weighted_sum))
      else mode_vote r pcs)"

text \<open>
  Min-max normalisation of one score column; \<open>min\<close> of an empty numpy array raises
  ValueError.
\<close>

definition normalize_scores :: "rat list \<Rightarrow> error + rat list" where
  "normalize_scores scores =
     (if scores = [] then Inl ValueError
      else
        (let min_score = Min (set scores); max_score = Max (set scores) in
         if min_score < max_score
         then Inr (map (\<lambda>s. (s - min_score) / (max_score - min_score)) scores)
         else Inr (map (\<lambda>s. 0) scores)))"

fun normalize_all :: "(string \<times> rat list) list \<Rightarrow> error + rat list list" where
  "normalize_all [] = Inr []"
| "normalize_all ((col, scores) # rest) =
     (case normalize_scores scores of
        Inl e \<Rightarrow> Inl e
      | Inr normalized \<Rightarrow>
          (case normalize_all rest of
             Inl e \<Rightarrow> Inl e
           | Inr ns \<Rightarrow> Inr (normalized # ns)))"

definition ensemble_score :: "results \<Rightarrow> error + rat list" where
  "ensemble_score r =
     (let scs = score_cols r in
      if scs = [] then Inr (replicate (index_len r) 0)
      else
        (case normalize_all scs of
           Inl e \<Rightarrow> Inl e
         | Inr ns \<Rightarrow>
             Inr (map (\<lambda>i. sum_list (map (\<lambda>v. v ! i) ns) / of_nat (length ns))
                    [0..<index_len r])))"

text \<open>The ensemble step of \<open>detect\<close>: two column assignments, each from the table so far.\<close>

definition ensemble_step :: "ensemble_config \<Rightarrow> results \<Rightarrow> error + results" where
  "ensemble_step cfg r =
     (case ensemble_predict cfg r of
        Inl e \<Rightarrow> Inl e
      | Inr ep \<Rightarrow>
          (case set_column r ''ensemble_prediction'' ep of
             Inl e \<Rightarrow> Inl e
           | Inr r1 \<Rightarrow>
               (case ensemble_score r1 of
                  Inl e \<Rightarrow> Inl e
                | Inr es \<Rightarrow> set_column r1 ''ensemble_score'' es)))"

text \<open>
  The loop over the registry, from the empty table on the index of the input. The registry
  is a dict: the list holds its items in iteration order.
\<close>

definition run_models :: "(string \<times> detector) list \<Rightarrow> matrix \<Rightarrow> results" where
  "run_models models X = foldl (run_model X) \<lparr>index_len = length X, cols = []\<rparr> models"

definition detect ::
  "ensemble_config \<Rightarrow> (string \<times> detector) list \<Rightarrow> matrix \<Rightarrow> error + verdicts" where
  "detect cfg models X =
     (let r1 = run_models models X
      in case (if get_enabled cfg then ensemble_step cfg r1 else Inr r1) of
           Inl e \<Rightarrow> Inl e
         | Inr r2 \<Rightarrow>
             (case map_of (cols r2) ''ensemble_prediction'' of
                None \<Rightarrow> Inl KeyError
              | Some ep \<Rightarrow> Inr \<lparr>table = r2, is_anomaly = map (\<lambda>p. p = - 1) ep\<rparr>))"

section \<open>The sequence detector (models/lstm_detector.py)\<close>

text \<open>
  The state of an \<open>LSTMDetector\<close> that \<open>predict\<close> reads: the window length, the trained
  network and the threshold fixed by \<open>fit\<close>, the last two \<open>None\<close> before \<open>fit\<close>. The network
  is the call \<open>self.model.predict(X_seq)\<close>: from the batch of windows to one predicted row
  per window, or an exception. The window length is a natural number.
\<close>

record LSTMDetector =
  sequence_length :: nat
  lstm_model :: "(matrix list \<Rightarrow> error + matrix) option"
  threshold_value :: "rat option"

text \<open>
  \<open>_create_sequences\<close>: the windows \<open>X[i:i+k]\<close> and their targets \<open>X[i+k]\<close> for
  \<open>i\<close> in \<open>range(len(X) - k)\<close>, which is empty when \<open>len(X) \<le> k\<close>.
\<close>

definition create_sequences :: "nat \<Rightarrow> matrix \<Rightarrow> matrix list \<times> matrix" where
  "create_sequences k X =
     (map (\<lambda>i. take k (drop i X)) [0..<length X - k],
      map (\<lambda>i. X ! (i + k)) [0..<length X - k])"

text \<open>
  \<open>np.mean(np.square(y_seq - predictions), axis=1)\<close>, row by row: the mean over no
  feature at all is NaN; rows of different widths raise (numpy's broadcasting of an
  axis of length one is left out).
\<close>

definition mean_square :: "rat list \<Rightarrow> rat list \<Rightarrow> fval" where
  "mean_square y p =
     (if y = [] then NaN
      else Fin (sum_list (map2 (\<lambda>a b. (a - b) * (a - b)) y p) / of_nat (length y)))"

fun row_errors :: "matrix \<Rightarrow> matrix \<Rightarrow> error + fval list" where
  "row_errors [] [] = Inr []"
| "row_errors (y # ys) (p # ps) =
     (if length p \<noteq> length y then Inl ValueError
      else (case row_errors ys ps of
              Inl e \<Rightarrow> Inl e
            | Inr es \<Rightarrow> Inr (mean_square y p # es)))"
| "row_errors [] (p # ps) = Inl ValueError"
| "row_errors (y # ys) [] = Inl ValueError"

text \<open>
  \<open>score_samples\<close>: without any window it returns \<open>np.zeros(len(X))\<close>, one zero per input
  row; otherwise one error per window, that is \<open>len(X) - k\<close> of them.
\<close>

definition LSTM_score_samples :: "LSTMDetector \<Rightarrow> matrix \<Rightarrow> error + fval list" where
  "LSTM_score_samples l X =
     (case create_sequences (sequence_length l) X of
        (X_seq, y_seq) \<Rightarrow>
          if X_seq = [] then Inr (replicate (length X) (Fin 0))
          else (case lstm_model l of
                  None \<Rightarrow> Inl AttributeError
                | Some net \<Rightarrow>
                    (case net X_seq of
                       Inl e \<Rightarrow> Inl e
                     | Inr predictions \<Rightarrow> row_errors y_seq predictions)))"

text \<open>
  \<open>predictions[k:] = labels\<close> on a numpy array: the labels must be as many as the slice
  has cells, or be a single one, which is broadcast; anything else raises ValueError.
\<close>

definition assign_tail :: "rat list \<Rightarrow> nat \<Rightarrow> rat list \<Rightarrow> error + rat list" where
  "assign_tail predictions k labels =
     (let tail_len = length predictions - k in
      if length labels = tail_len then Inr (take k predictions @ labels)
      else if length labels = 1 then Inr (take k predictions @ replicate tail_len (hd labels))
      else Inl ValueError)"

definition LSTM_predict :: "LSTMDetector \<Rightarrow> matrix \<Rightarrow> error + rat list" where
  "LSTM_predict l X =
     (case LSTM_score_samples l X of
        Inl e \<Rightarrow> Inl e
      | Inr scores \<Rightarrow>
          (case threshold_value l of
             None \<Rightarrow> Inl TypeError
           | Some thr \<Rightarrow>
               assign_tail (replicate (length X) 1) (sequence_length l)
                 (map (\<lambda>s. if fval_less (Fin thr) s then - 1 else 1) scores)))"

section \<open>The trainer (models/train.py)\<close>









section \<open>Feature extraction (feature_engineering)\<close>















fun contains :: "string \<Rightarrow> string \<Rightarrow> bool" where
  "contains pat [] = (pat = [])"
| "contains pat (c # cs) = (take (length pat) (c # cs) = pat \<or> contains pat cs)"





section \<open>The feature engineer (feature_engineering/engineer_features.py)\<close>

















section \<open>Reference notions and sample inputs\<close>

text \<open>
  A mode of a row, in the words of the specification: a value of the row that no other
  value of the row occurs more often than.
\<close>

definition is_mode :: "rat \<Rightarrow> rat list \<Rightarrow> bool" where
  "is_mode v xs = (v \<in> set xs \<and> (\<forall>y\<in>set xs. count_list xs y \<le> count_list xs v))"

definition voting_cfg :: ensemble_config where
  "voting_cfg = \<lparr>cfg_enabled = None, cfg_method = None, cfg_weights = None\<rparr>"


definition two_detectors_tied :: results where
  "two_detectors_tied = \<lparr>index_len = 1, cols =
     [(''iforest_prediction'', [1]), (''svm_prediction'', [- 1])]\<rparr>"

text \<open>Every column of a table has one cell per row of the index.\<close>

definition wf_results :: "results \<Rightarrow> bool" where
  "wf_results r = (\<forall>cv\<in>set (cols r). length (snd cv) = index_len r)"

text \<open>
  A detector for the sample runs: a sample is an anomaly when the sum of its features
  exceeds the threshold; the score is the negated sum.
\<close>

definition threshold_detector :: "rat \<Rightarrow> detector" where
  "threshold_detector t =
     \<lparr>predict = (\<lambda>X. Inr (map (\<lambda>row. if t < sum_list row then - 1 else 1) X)),
      score_samples = Some (\<lambda>X. Inr (map (\<lambda>row. - sum_list row) X)),
      decision_function = None\<rparr>"

definition sample_models :: "(string \<times> detector) list" where
  "sample_models = [(''iforest'', threshold_detector 1), (''svm'', threshold_detector 4)]"

definition sample_X :: matrix where
  "sample_X = [[0, 1], [2, 3], [1, 1]]"

definition disabled_cfg :: ensemble_config where
  "disabled_cfg = \<lparr>cfg_enabled = Some False, cfg_method = None, cfg_weights = None\<rparr>"

definition ensemble_named_models :: "(string \<times> detector) list" where
  "ensemble_named_models = [(''ensemble'', threshold_detector 1)]"





definition always :: "rat \<Rightarrow> detector" where
  "always label =
     \<lparr>predict = (\<lambda>X. Inr (map (\<lambda>row. label) X)),
      score_samples = None,
      decision_function = None\<rparr>"

definition weighted_cfg :: ensemble_config where
  "weighted_cfg = \<lparr>cfg_enabled = None, cfg_method = Some ''weighted'',
                   cfg_weights = Some [''next_prediction'' \<mapsto> 3, ''iforest'' \<mapsto> 1]\<rparr>"

definition renamed_models :: "(string \<times> detector) list" where
  "renamed_models = [(''next_prediction'', always (- 1)), (''iforest'', always 1)]"

definition spec_example_cfg :: ensemble_config where
  "spec_example_cfg = \<lparr>cfg_enabled = None, cfg_method = Some ''weighted'',
                   cfg_weights = Some [''a'' \<mapsto> 1, ''b'' \<mapsto> 3]\<rparr>"

text \<open>A network for the sample runs: it predicts that the next row repeats the last one.\<close>

definition repeat_last :: "matrix list \<Rightarrow> error + matrix" where
  "repeat_last X_seq = Inr (map last X_seq)"

definition fitted_lstm :: "nat \<Rightarrow> LSTMDetector" where
  "fitted_lstm k = \<lparr>sequence_length = k, lstm_model = Some repeat_last, threshold_value = Some 1\<rparr>"

definition five_rows :: matrix where
  "five_rows = [[0], [0], [3], [3], [3]]"















text \<open>
  The weighted rule in the words of the specification: the weight of a detector is the one
  configured under its name, 1 by default; the detector of a prediction column is the
  label without its suffix; the weighted average of a sample divides the weighted sum of
  its votes by the total weight. A plain name is one in which \<open>_prediction\<close> does not occur.
\<close>

definition detector_weight :: "(string \<rightharpoonup> rat) \<Rightarrow> string \<Rightarrow> rat" where
  "detector_weight ws name = (case ws name of None \<Rightarrow> 1 | Some w \<Rightarrow> w)"

definition column_detector :: "string \<Rightarrow> string" where
  "column_detector c = take (length c - length ''_prediction'') c"

definition weighted_average ::
  "(string \<rightharpoonup> rat) \<Rightarrow> (string \<times> rat list) list \<Rightarrow> nat \<Rightarrow> fval" where
  "weighted_average ws pcs i =
     np_divide (sum_list (map (\<lambda>cv. snd cv ! i * detector_weight ws (column_detector (fst cv))) pcs))
               (sum_list (map (\<lambda>cv. detector_weight ws (column_detector (fst cv))) pcs))"

definition plain_name :: "string \<Rightarrow> bool" where
  "plain_name name = (\<not> contains ''_prediction'' name)"

definition two_weighted_columns :: results where
  "two_weighted_columns =
     \<lparr>index_len = 1, cols = [(''a_prediction'', [1]), (''b_prediction'', [- 1])]\<rparr>"

section \<open>Majority voting\<close>

subsection \<open>The most frequent values of a row\<close>

lemma fold_max_ge: "a \<le> fold max (ns::nat list) a"
proof (induction ns arbitrary: a)
  case Nil
  then show ?case by simp
next
  case (Cons m ns)
  from Cons[of "max m a"] show ?case by simp
qed

lemma fold_max_mem: "n \<in> set ns \<Longrightarrow> n \<le> fold max (ns::nat list) a"
proof (induction ns arbitrary: a)
  case Nil
  then show ?case by simp
next
  case (Cons m ns)
  show ?case
  proof (cases "n = m")
    case True
    have "max m a \<le> fold max ns (max m a)" by (rule fold_max_ge)
    then show ?thesis using True by simp
  next
    case False
    then show ?thesis using Cons by simp
  qed
qed

lemma fold_max_in: "fold max (ns::nat list) a = a \<or> fold max ns a \<in> set ns"
proof (induction ns arbitrary: a)
  case Nil
  then show ?case by simp
next
  case (Cons m ns)
  from Cons[of "max m a"] show ?case by (auto simp: max_def split: if_splits)
qed

lemma max_count_ge: "count_list xs y \<le> max_count xs"
proof (cases "y \<in> set xs")
  case True
  then have "count_list xs y \<in> set (map (count_list xs) xs)" by simp
  then show ?thesis unfolding max_count_def by (rule fold_max_mem)
next
  case False
  then show ?thesis by simp
qed

lemma max_count_attained:
  assumes "xs \<noteq> []"
  shows "\<exists>x\<in>set xs. count_list xs x = max_count xs"
proof -
  from fold_max_in[of "map (count_list xs) xs" 0]
  have "max_count xs = 0 \<or> max_count xs \<in> set (map (count_list xs) xs)"
    unfolding max_count_def by simp
  moreover have "max_count xs \<noteq> 0"
  proof -
    from assms obtain x where x: "x \<in> set xs" by (cases xs) auto
    then have "0 < count_list xs x" by (metis count_list_0_iff gr0I)
    with max_count_ge[of xs x] show ?thesis by simp
  qed
  ultimately show ?thesis by auto
qed

lemma set_modes: "set (modes xs) = {x \<in> set xs. count_list xs x = max_count xs}"
  by (auto simp: modes_def)

lemma sorted_modes: "sorted (modes xs)"
  by (simp add: modes_def)

lemma is_mode_count: "is_mode v xs \<Longrightarrow> count_list xs y \<le> count_list xs v"
  unfolding is_mode_def by (metis count_notin le0)

lemma modes_is_mode: "v \<in> set (modes xs) \<longleftrightarrow> is_mode v xs"
proof
  assume "v \<in> set (modes xs)"
  then show "is_mode v xs" using max_count_ge[of xs] by (auto simp: set_modes is_mode_def)
next
  assume m: "is_mode v xs"
  then have "xs \<noteq> []" by (auto simp: is_mode_def)
  from max_count_attained[OF this] obtain x
    where "x \<in> set xs" "count_list xs x = max_count xs" by blast
  with m max_count_ge[of xs v] is_mode_count[OF m, of x] show "v \<in> set (modes xs)"
    by (auto simp: set_modes is_mode_def)
qed

lemma modes_nonempty:
  assumes "xs \<noteq> []"
  shows "modes xs \<noteq> []"
proof -
  from max_count_attained[OF assms] obtain x
    where "x \<in> set xs" "count_list xs x = max_count xs" by blast
  then have "x \<in> set (modes xs)" by (simp add: set_modes)
  then show ?thesis by auto
qed

subsection \<open>The vote of one sample\<close>

lemma row_at_nonempty: "pcs \<noteq> [] \<Longrightarrow> row_at pcs i \<noteq> []"
  by (simp add: row_at_def)

lemma ensemble_predict_voting:
  assumes "get_method cfg \<noteq> ''weighted''" and "pred_cols r \<noteq> []"
  shows "ensemble_predict cfg r = mode_vote r (pred_cols r)"
  using assms by (simp add: ensemble_predict_def Let_def)

lemma voting_sample:
  assumes "get_method cfg \<noteq> ''weighted''" and "pred_cols r \<noteq> []" and "i < index_len r"
  obtains votes m ms where "ensemble_predict cfg r = Inr votes" "length votes = index_len r"
    "modes (row_at (pred_cols r) i) = m # ms" "votes ! i = m"
proof -
  let ?votes = "map (\<lambda>i. case modes (row_at (pred_cols r) i) of [] \<Rightarrow> 0 | m # ms \<Rightarrow> m)
                  [0..<index_len r]"
  from assms have 1: "ensemble_predict cfg r = Inr ?votes"
    by (simp add: ensemble_predict_voting mode_vote_def)
  from row_at_nonempty[OF assms(2)] have "modes (row_at (pred_cols r) i) \<noteq> []"
    by (rule modes_nonempty)
  then obtain m ms where eq: "modes (row_at (pred_cols r) i) = m # ms"
    by (cases "modes (row_at (pred_cols r) i)") auto
  with assms(3) have "?votes ! i = m" by simp
  with 1 eq that show thesis by simp
qed




text \<open>
  Claim C9. Under majority voting, a sample whose votes are all \<open>-1\<close> or \<open>+1\<close> and split
  evenly between the two gets the ensemble prediction \<open>-1\<close>: the modes come in ascending
  order and the first one is taken.
\<close>

theorem even_split_votes_anomaly:
  assumes "get_method cfg \<noteq> ''weighted''" and "pred_cols r \<noteq> []" and "i < index_len r"
    and "set (row_at (pred_cols r) i) \<subseteq> {- 1, 1}"
    and "count_list (row_at (pred_cols r) i) (- 1) = count_list (row_at (pred_cols r) i) 1"
  shows "\<exists>votes. ensemble_predict cfg r = Inr votes \<and> length votes = index_len r \<and>
           votes ! i = - 1"
proof -
  let ?row = "row_at (pred_cols r) i"
  from assms(1-3) obtain votes m ms
    where v: "ensemble_predict cfg r = Inr votes" "length votes = index_len r"
      "modes ?row = m # ms" "votes ! i = m"
    by (rule voting_sample)
  have ne: "?row \<noteq> []" using assms(2) by (rule row_at_nonempty)
  have mem: "- 1 \<in> set ?row"
  proof (rule ccontr)
    assume no: "- 1 \<notin> set ?row"
    then have "count_list ?row (- 1) = 0" by simp
    with assms(5) have "1 \<notin> set ?row" by (simp add: count_list_0_iff)
    with no assms(4) have "set ?row \<subseteq> {}" by blast
    with ne show False by simp
  qed
  have "is_mode (- 1) ?row"
    unfolding is_mode_def
  proof (intro conjI ballI)
    show "- 1 \<in> set ?row" by (rule mem)
    fix y
    assume "y \<in> set ?row"
    with assms(4,5) show "count_list ?row y \<le> count_list ?row (- 1)" by auto
  qed
  then have "- 1 \<in> set (modes ?row)" by (simp add: modes_is_mode)
  with sorted_modes[of ?row] v(3) have "m \<le> - 1" by auto
  moreover have "m \<in> set (modes ?row)" using v(3) by simp
  then have "m \<in> set ?row" by (simp add: set_modes)
  with assms(4) have "m = - 1 \<or> m = 1" by auto
  ultimately have "m = - 1" by auto
  with v show ?thesis by simp
qed

theorem even_split_votes_anomaly_witness:
  "get_method voting_cfg \<noteq> ''weighted'' \<and> pred_cols two_detectors_tied \<noteq> [] \<and>
   (0::nat) < index_len two_detectors_tied \<and>
   set (row_at (pred_cols two_detectors_tied) 0) \<subseteq> {- 1, 1} \<and>
   count_list (row_at (pred_cols two_detectors_tied) 0) (- 1) =
     count_list (row_at (pred_cols two_detectors_tied) 0) 1 \<and>
   (\<exists>votes. ensemble_predict voting_cfg two_detectors_tied = Inr votes \<and>
      length votes = index_len two_detectors_tied \<and> votes ! 0 = - 1)"
proof -
  have row: "row_at (pred_cols two_detectors_tied) 0 = [1, - 1]"
    by (simp add: two_detectors_tied_def pred_cols_def row_at_def endswith_def)
  have h1: "get_method voting_cfg \<noteq> ''weighted''"
    by (simp add: get_method_def voting_cfg_def)
  have h2: "pred_cols two_detectors_tied \<noteq> []"
    by (simp add: two_detectors_tied_def pred_cols_def endswith_def)
  have h3: "0 < index_len two_detectors_tied" by (simp add: two_detectors_tied_def)
  have h4: "set (row_at (pred_cols two_detectors_tied) 0) \<subseteq> {- 1, 1}" by (simp add: row)
  have h5: "count_list (row_at (pred_cols two_detectors_tied) 0) (- 1) =
            count_list (row_at (pred_cols two_detectors_tied) 0) 1"
    by (simp add: row)
  from even_split_votes_anomaly[OF h1 h2 h3 h4 h5] h1 h2 h3 h4 h5 show ?thesis by blast
qed

section \<open>Tables built by the detection loop\<close>



lemma set_column_Inr: "length v = index_len r \<Longrightarrow> set_column r c v = Inr (r\<lparr>cols := AList.update c v (cols r)\<rparr>)"
  by (simp add: set_column_def)










lemma endswith_append: "endswith (s @ suf) suf"
  by (simp add: endswith_def)









lemma run_sample: "run_models sample_models sample_X =
  \<lparr>index_len = 3, cols = [(''iforest_prediction'', [1, - 1, - 1]), (''iforest_score'', [- 1, - 5, - 2]),
      (''svm_prediction'', [1, - 1, 1]), (''svm_score'', [- 1, - 5, - 2])]\<rparr>"
  by (simp add: run_models_def run_model_def sample_models_def sample_X_def threshold_detector_def
        set_column_def score_fn_def)


section \<open>Detector isolation and the ensemble switch\<close>

lemma keys_update: "fst ` set (AList.update k v al) = insert k (fst ` set al)"
  by (simp add: dom_update)

lemma set_column_keys:
  assumes "set_column r c v = Inr r'"
  shows "fst ` set (cols r') = insert c (fst ` set (cols r))"
proof -
  from assms have "cols r' = AList.update c v (cols r)"
    by (auto simp: set_column_def split: if_splits)
  then show ?thesis by (simp only: keys_update)
qed

lemma run_model_keys:
  "fst ` set (cols (run_model X r (name, d))) \<subseteq>
     fst ` set (cols r) \<union> {name @ ''_prediction'', name @ ''_score''}"
proof (cases "predict d X")
  case (Inl e)
  then show ?thesis by (auto simp: run_model_def)
next
  case (Inr predictions)
  show ?thesis
  proof (cases "set_column r (name @ ''_prediction'') predictions")
    case (Inl e)
    then show ?thesis using Inr by (auto simp: run_model_def)
  next
    case r1: (Inr r1)
    from set_column_keys[OF r1] have k1: "fst ` set (cols r1) = insert (name @ ''_prediction'') (fst ` set (cols r))" .
    show ?thesis
    proof (cases "score_fn d")
      case None
      then show ?thesis using Inr r1 k1 by (auto simp: run_model_def)
    next
      case (Some f)
      show ?thesis
      proof (cases "f X")
        case (Inl e)
        then show ?thesis using Inr r1 k1 Some by (auto simp: run_model_def)
      next
        case sc: (Inr scores)
        show ?thesis
        proof (cases "set_column r1 (name @ ''_score'') scores")
          case (Inl e)
          then show ?thesis using Inr r1 k1 Some sc by (auto simp: run_model_def)
        next
          case r2: (Inr r2)
          from set_column_keys[OF r2] k1 have "fst ` set (cols r2) = insert (name @ ''_score'') (insert (name @ ''_prediction'') (fst ` set (cols r)))"
            by simp
          then show ?thesis using Inr r1 Some sc r2 by (auto simp: run_model_def)
        qed
      qed
    qed
  qed
qed

lemma foldl_run_model_keys:
  "fst ` set (cols (foldl (run_model X) r ms)) \<subseteq>
     fst ` set (cols r) \<union> (\<lambda>n. n @ ''_prediction'') ` fst ` set ms \<union> (\<lambda>n. n @ ''_score'') ` fst ` set ms"
proof (induction ms arbitrary: r)
  case Nil
  then show ?case by simp
next
  case (Cons m ms)
  obtain name d where m: "m = (name, d)" by (cases m)
  from Cons[of "run_model X r m"] run_model_keys[of X r name d]
  show ?case unfolding m by auto
qed

lemma run_models_keys:
  "fst ` set (cols (run_models ms X)) \<subseteq>
     (\<lambda>n. n @ ''_prediction'') ` fst ` set ms \<union> (\<lambda>n. n @ ''_score'') ` fst ` set ms"
  using foldl_run_model_keys[of X "\<lparr>index_len = length X, cols = []\<rparr>" ms]
  by (simp add: run_models_def)

lemma prediction_neq_score: "n @ ''_prediction'' \<noteq> m @ ''_score''"
proof
  assume "n @ ''_prediction'' = m @ ''_score''"
  then have "last (n @ ''_prediction'') = last (m @ ''_score'')" by simp
  then show False by simp
qed

lemma ensemble_prediction_name: "''ensemble_prediction'' = n @ ''_prediction'' \<longleftrightarrow> n = ''ensemble''"
proof -
  have "''ensemble_prediction'' = ''ensemble'' @ ''_prediction''" by simp
  then show ?thesis by (metis append_same_eq)
qed


lemma map_of_None_keys: "map_of al k = None \<longleftrightarrow> k \<notin> fst ` set al"
  by (simp add: map_of_eq_None_iff)

text \<open>
  Claim C10, as amended. With \<open>ensemble.enabled\<close> set to False, \<open>detect\<close> raises KeyError
  for every input as long as no registered detector is named \<open>ensemble\<close>: the column
  \<open>ensemble_prediction\<close> that \<open>is_anomaly\<close> reads is then never created.
\<close>

theorem detect_disabled_raises:
  assumes "\<not> get_enabled cfg" and "''ensemble'' \<notin> fst ` set models"
  shows "detect cfg models X = Inl KeyError"
proof -
  have "''ensemble_prediction'' \<notin> fst ` set (cols (run_models models X))"
  proof
    assume "''ensemble_prediction'' \<in> fst ` set (cols (run_models models X))"
    with run_models_keys[of models X]
    have "''ensemble_prediction'' \<in> (\<lambda>n. n @ ''_prediction'') ` fst ` set models \<or>
          ''ensemble_prediction'' \<in> (\<lambda>n. n @ ''_score'') ` fst ` set models" by blast
    then show False
    proof
      assume "''ensemble_prediction'' \<in> (\<lambda>n. n @ ''_prediction'') ` fst ` set models"
      then obtain n where "n \<in> fst ` set models" "''ensemble_prediction'' = n @ ''_prediction''" by blast
      with assms(2) show False by (simp add: ensemble_prediction_name)
    next
      assume "''ensemble_prediction'' \<in> (\<lambda>n. n @ ''_score'') ` fst ` set models"
      then obtain n where "''ensemble'' @  ''_prediction'' = n @ ''_score''" by auto
      then show False by (rule prediction_neq_score[THEN notE])
    qed
  qed
  then have "map_of (cols (run_models models X)) ''ensemble_prediction'' = None"
    by (simp add: map_of_None_keys)
  with assms(1) show ?thesis by (simp add: detect_def)
qed

theorem detect_disabled_raises_witness:
  "\<not> get_enabled disabled_cfg \<and> ''ensemble'' \<notin> fst ` set sample_models \<and>
   detect disabled_cfg sample_models sample_X = Inl KeyError"
proof -
  have h1: "\<not> get_enabled disabled_cfg" by (simp add: get_enabled_def disabled_cfg_def)
  have h2: "''ensemble'' \<notin> fst ` set sample_models" by (simp add: sample_models_def)
  from detect_disabled_raises[OF h1 h2] h1 h2 show ?thesis by simp
qed

text \<open>
  The claim as stated fails: a registered detector named \<open>ensemble\<close> writes its own
  predictions under the label \<open>ensemble_prediction\<close>, and \<open>detect\<close> returns with the ensemble
  step disabled.
\<close>

theorem detect_disabled_returns_counterexample:
  "\<not> get_enabled disabled_cfg \<and>
   detect disabled_cfg ensemble_named_models sample_X =
     Inr \<lparr>table = \<lparr>index_len = 3, cols = [(''ensemble_prediction'', [1, - 1, - 1]),
                                          (''ensemble_score'', [- 1, - 5, - 2])]\<rparr>,
          is_anomaly = [False, True, True]\<rparr>"
  by (simp add: get_enabled_def disabled_cfg_def detect_def run_models_def run_model_def
      ensemble_named_models_def sample_X_def threshold_detector_def set_column_def score_fn_def)




lemma prediction_name_inj: "n @ ''_prediction'' = m @ ''_prediction'' \<longleftrightarrow> n = m"
  by simp





text \<open>
  Claim C3 at a failing input. The detector \<open>next_prediction\<close> is configured with weight 3
  and votes \<open>-1\<close>, the detector \<open>iforest\<close> with weight 1 votes \<open>+1\<close>: the weighted average
  of the claim is \<open>-1/2\<close>, an anomaly. The program derives the detector name from the column
  label by deleting every occurrence of \<open>_prediction\<close>, looks up \<open>next\<close>, falls back to the
  default weight 1 and returns \<open>+1\<close>.
\<close>

theorem weighted_vote_drops_configured_weight:
  "get_weights weighted_cfg ''next_prediction'' = Some 3 \<and>
   get_weights weighted_cfg ''iforest'' = Some 1 \<and>
   np_divide ((- 1) * 3 + 1 * 1) (3 + 1) = Fin (- 1 / 2) \<and>
   detect weighted_cfg renamed_models [[0]] =
     Inr \<lparr>table = \<lparr>index_len = 1, cols =
              [(''next_prediction_prediction'', [- 1]), (''iforest_prediction'', [1]),
               (''ensemble_prediction'', [1]), (''ensemble_score'', [0])]\<rparr>,
          is_anomaly = [False]\<rparr>"
  by code_simp

lemma weighted_spec_example:
  "ensemble_predict spec_example_cfg
     \<lparr>index_len = 1, cols = [(''a_prediction'', [1]), (''b_prediction'', [- 1])]\<rparr> = Inr [- 1]"
  by code_simp

section \<open>The weighted rule\<close>

lemma contains_Cons: "\<not> contains pat (c # cs) \<Longrightarrow> \<not> contains pat cs"
  by simp

lemma contains_take: "\<not> contains pat (c # cs) \<Longrightarrow> take (length pat) (c # cs) \<noteq> pat"
  by simp

lemma no_straddle:
  assumes t: "take (length pat) (name @ pat) = pat"
    and ne: "name \<noteq> []" and p: "pat \<noteq> []" and h: "hd pat \<notin> set (tl pat)"
  shows "length pat \<le> length name"
proof (rule ccontr)
  assume "\<not> length pat \<le> length name"
  then have k: "length name < length pat" by simp
  let ?k = "length name"
  have "take (length pat) (name @ pat) ! ?k = (name @ pat) ! ?k"
    using k by (rule nth_take)
  also have "\<dots> = pat ! 0" by (simp add: nth_append)
  also have "\<dots> = hd pat" using p by (simp add: hd_conv_nth)
  finally have "pat ! ?k = hd pat" using t by simp
  moreover have "0 < ?k" using ne by simp
  then have "pat ! ?k = tl pat ! (?k - 1)" using k p by (cases pat) (auto simp: nth_Cons')
  moreover have "?k - 1 < length (tl pat)" using k ne by (cases name) auto
  then have "tl pat ! (?k - 1) \<in> set (tl pat)" by (rule nth_mem)
  ultimately show False using h by simp
qed

lemma str_replace_suffix_gen:
  assumes p: "pat \<noteq> []" and h: "hd pat \<notin> set (tl pat)"
  shows "\<not> contains pat name \<Longrightarrow> str_replace pat [] (name @ pat) = name"
proof (induction name)
  case Nil
  have "str_replace pat [] pat = []"
  proof (cases pat)
    case Nil
    with p show ?thesis by simp
  next
    case (Cons a as)
    have "str_replace pat [] (a # as) = [] @ str_replace pat [] (drop (length pat) (a # as))"
      using p Cons by (subst str_replace.simps(2)) simp
    then show ?thesis using Cons by simp
  qed
  then show ?case by simp
next
  case (Cons c cs)
  from Cons.prems have nc: "take (length pat) (c # cs) \<noteq> pat" and ncs: "\<not> contains pat cs"
    by simp_all
  have no: "take (length pat) ((c # cs) @ pat) \<noteq> pat"
  proof
    assume t: "take (length pat) ((c # cs) @ pat) = pat"
    from no_straddle[OF t _ p h] have "length pat \<le> length (c # cs)" by simp
    then have "take (length pat) ((c # cs) @ pat) = take (length pat) (c # cs)"
      by (simp only: take_append) simp
    with t have "take (length pat) (c # cs) = pat" by simp
    with nc show False by simp
  qed
  have "str_replace pat [] ((c # cs) @ pat) = str_replace pat [] (c # (cs @ pat))" by simp
  also have "\<dots> = c # str_replace pat [] (cs @ pat)"
    using no by (subst str_replace.simps(2)) simp
  also have "\<dots> = c # cs" using Cons.IH[OF ncs] by simp
  finally show ?case .
qed

lemma str_replace_suffix:
  assumes "plain_name name"
  shows "str_replace ''_prediction'' [] (name @ ''_prediction'') = name"
proof (rule str_replace_suffix_gen)
  show "''_prediction'' \<noteq> []" by simp
  show "hd ''_prediction'' \<notin> set (tl ''_prediction'')" by simp
  show "\<not> contains ''_prediction'' name" using assms by (simp add: plain_name_def)
qed

lemma column_detector_suffix: "column_detector (name @ ''_prediction'') = name"
  by (simp add: column_detector_def)

lemma weighted_loop_sum:
  assumes "\<forall>cv\<in>set pcs. length (snd cv) = n" and "length acc = n"
  shows "weighted_loop ws pcs (acc, t) =
    (map (\<lambda>i. acc ! i +
             sum_list (map (\<lambda>cv. snd cv ! i * detector_weight ws (str_replace ''_prediction'' [] (fst cv))) pcs))
       [0..<n],
     t + sum_list (map (\<lambda>cv. detector_weight ws (str_replace ''_prediction'' [] (fst cv))) pcs))"
  using assms
proof (induction pcs arbitrary: acc t)
  case Nil
  have "map ((!) acc) [0..<length acc] = acc" by (rule map_nth)
  with Nil show ?case by simp
next
  case (Cons cv pcs)
  obtain col v where cv: "cv = (col, v)" by (cases cv)
  let ?w = "detector_weight ws (str_replace ''_prediction'' [] col)"
  let ?acc = "map2 (\<lambda>s p. s + p * ?w) acc v"
  from Cons.prems cv have lv: "length v = n" by simp
  with Cons.prems(2) have la: "length ?acc = n" by simp
  have step: "weighted_loop ws (cv # pcs) (acc, t) = weighted_loop ws pcs (?acc, t + ?w)"
    unfolding cv by (simp add: detector_weight_def Let_def)
  have rest: "\<forall>cv\<in>set pcs. length (snd cv) = n" using Cons.prems(1) by simp
  have nth: "?acc ! i = acc ! i + v ! i * ?w" if "i < n" for i
    using that lv Cons.prems(2) by simp
  have "map (\<lambda>i. ?acc ! i +
             sum_list (map (\<lambda>cv. snd cv ! i * detector_weight ws (str_replace ''_prediction'' [] (fst cv))) pcs))
         [0..<n] =
        map (\<lambda>i. acc ! i +
             sum_list (map (\<lambda>cv. snd cv ! i * detector_weight ws (str_replace ''_prediction'' [] (fst cv))) (cv # pcs)))
         [0..<n]"
    by (rule map_cong) (simp_all add: nth cv algebra_simps)
  moreover have "t + ?w + sum_list (map (\<lambda>cv. detector_weight ws (str_replace ''_prediction'' [] (fst cv))) pcs) =
     t + sum_list (map (\<lambda>cv. detector_weight ws (str_replace ''_prediction'' [] (fst cv))) (cv # pcs))"
    by (simp add: cv)
  ultimately show ?case
    unfolding step Cons.IH[OF rest la] by simp
qed

lemma endswith_split:
  assumes "endswith c suf"
  shows "c = take (length c - length suf) c @ suf"
proof -
  from assms have "drop (length c - length suf) c = suf" by (simp add: endswith_def)
  then show ?thesis by (metis append_take_drop_id)
qed

lemma plain_column_name:
  assumes "endswith c ''_prediction''" and "plain_name (column_detector c)"
  shows "str_replace ''_prediction'' [] c = column_detector c"
proof -
  from endswith_split[OF assms(1)] have c: "c = column_detector c @ ''_prediction''"
    by (simp only: column_detector_def)
  from str_replace_suffix[OF assms(2)] show ?thesis using c by simp
qed

text \<open>
  The weighted rule of claim C3 for plain detector names. Under the method \<open>weighted\<close>,
  when the name of no contributing detector contains \<open>_prediction\<close>, the ensemble
  prediction of every sample is \<open>-1\<close> if the weighted average of its votes is below 0 and
  \<open>+1\<close> otherwise, each weight taken from the configuration under the detector's name and
  1 by default. Votes \<open>[+1, -1]\<close> with weights \<open>[1, 3]\<close> average to \<open>-1/2\<close> and give \<open>-1\<close>.
\<close>

theorem weighted_vote_rule:
  assumes "get_method cfg = ''weighted''" and "wf_results r" and "pred_cols r \<noteq> []"
    and "\<forall>cv\<in>set (pred_cols r). plain_name (column_detector (fst cv))"
    and "i < index_len r"
  shows "\<exists>votes. ensemble_predict cfg r = Inr votes \<and> length votes = index_len r \<and>
           votes ! i = (if fval_less (weighted_average (get_weights cfg) (pred_cols r) i) (Fin 0)
                        then - 1 else 1)"
proof -
  let ?n = "index_len r" and ?ws = "get_weights cfg" and ?pcs = "pred_cols r"
  have len: "\<forall>cv\<in>set ?pcs. length (snd cv) = ?n"
    using assms(2) by (auto simp: wf_results_def pred_cols_def)
  have names: "str_replace ''_prediction'' [] (fst cv) = column_detector (fst cv)" if "cv \<in> set ?pcs" for cv
  proof (rule plain_column_name)
    from that show "endswith (fst cv) ''_prediction''" by (simp add: pred_cols_def)
    from that assms(4) show "plain_name (column_detector (fst cv))" by simp
  qed
  have s1: "map (\<lambda>cv. snd cv ! j * detector_weight ?ws (str_replace ''_prediction'' [] (fst cv))) ?pcs =
            map (\<lambda>cv. snd cv ! j * detector_weight ?ws (column_detector (fst cv))) ?pcs" for j
    by (rule map_cong) (simp_all add: names)
  have s2: "map (\<lambda>cv. detector_weight ?ws (str_replace ''_prediction'' [] (fst cv))) ?pcs =
            map (\<lambda>cv. detector_weight ?ws (column_detector (fst cv))) ?pcs"
    by (rule map_cong) (simp_all add: names)
  let ?tw = "sum_list (map (\<lambda>cv. detector_weight ?ws (column_detector (fst cv))) ?pcs)"
  let ?sum = "\<lambda>j. sum_list (map (\<lambda>cv. snd cv ! j * detector_weight ?ws (column_detector (fst cv))) ?pcs)"
  have loop: "weighted_loop ?ws ?pcs (replicate ?n 0, 0) = (map ?sum [0..<?n], ?tw)"
  proof -
    have "weighted_loop ?ws ?pcs (replicate ?n 0, 0) =
      (map (\<lambda>j. replicate ?n 0 ! j +
             sum_list (map (\<lambda>cv. snd cv ! j * detector_weight ?ws (str_replace ''_prediction'' [] (fst cv))) ?pcs))
         [0..<?n],
       0 + sum_list (map (\<lambda>cv. detector_weight ?ws (str_replace ''_prediction'' [] (fst cv))) ?pcs))"
      by (rule weighted_loop_sum[OF len]) simp
    also have "\<dots> = (map ?sum [0..<?n], ?tw)"
      unfolding s1 s2 by (auto intro!: map_cong)
    finally show ?thesis .
  qed
  let ?votes = "map (\<lambda>s. if fval_less (np_divide s ?tw) (Fin 0) then - 1 else 1) (map ?sum [0..<?n])"
  have e: "ensemble_predict cfg r = Inr ?votes"
    using assms(1,3) by (simp add: ensemble_predict_def Let_def loop)
  have "?votes ! i = (if fval_less (np_divide (?sum i) ?tw) (Fin 0) then - 1 else 1)"
    using assms(5) by simp
  then have "?votes ! i = (if fval_less (weighted_average ?ws ?pcs i) (Fin 0) then - 1 else 1)"
    by (simp add: weighted_average_def)
  moreover have "length ?votes = ?n" by simp
  ultimately show ?thesis using e by blast
qed

theorem weighted_vote_rule_witness:
  "get_method spec_example_cfg = ''weighted'' \<and> wf_results two_weighted_columns \<and>
   pred_cols two_weighted_columns \<noteq> [] \<and>
   (\<forall>cv\<in>set (pred_cols two_weighted_columns). plain_name (column_detector (fst cv))) \<and>
   (0::nat) < index_len two_weighted_columns \<and>
   weighted_average (get_weights spec_example_cfg) (pred_cols two_weighted_columns) 0 = Fin (- 1 / 2) \<and>
   (\<exists>votes. ensemble_predict spec_example_cfg two_weighted_columns = Inr votes \<and>
      length votes = 1 \<and> votes ! 0 = - 1)"
proof -
  have h1: "get_method spec_example_cfg = ''weighted''" by code_simp
  have h2: "wf_results two_weighted_columns" by code_simp
  have h3: "pred_cols two_weighted_columns \<noteq> []" by code_simp
  have h4: "\<forall>cv\<in>set (pred_cols two_weighted_columns). plain_name (column_detector (fst cv))" by code_simp
  have h5: "0 < index_len two_weighted_columns" by code_simp
  have a: "weighted_average (get_weights spec_example_cfg) (pred_cols two_weighted_columns) 0 = Fin (- 1 / 2)"
    by code_simp
  have n: "index_len two_weighted_columns = 1" by code_simp
  from weighted_vote_rule[OF h1 h2 h3 h4 h5] show ?thesis
    unfolding a n using h1 h2 h3 h4 h5 by simp
qed

section \<open>The sequence detector\<close>

text \<open>
  Claim C6 at a failing input. With the default window length 10 and an input of five
  rows there is no window; \<open>score_samples\<close> returns five zeros, \<open>predict\<close> turns them into
  five labels and assigns them to the empty slice \<open>predictions[10:]\<close>, which raises
  ValueError. The claim expects five predictions, all \<open>+1\<close>.
\<close>

theorem LSTM_predict_raises_on_short_input:
  "length five_rows = 5 \<and> LSTM_predict (fitted_lstm 10) five_rows = Inl ValueError"
  by code_simp

lemma create_sequences_length:
  "length (fst (create_sequences k X)) = length X - k" "length (snd (create_sequences k X)) = length X - k"
  by (simp_all add: create_sequences_def)

lemma row_errors_length: "row_errors ys ps = Inr es \<Longrightarrow> length es = length ys"
  by (induction ys ps arbitrary: es rule: row_errors.induct) (auto split: if_splits sum.splits)

lemma LSTM_score_samples_length:
  assumes "sequence_length l < length X" "LSTM_score_samples l X = Inr scores"
  shows "length scores = length X - sequence_length l"
proof -
  obtain X_seq y_seq where cs: "create_sequences (sequence_length l) X = (X_seq, y_seq)"
    by (cases "create_sequences (sequence_length l) X")
  from create_sequences_length[of "sequence_length l" X] cs
  have len: "length X_seq = length X - sequence_length l" "length y_seq = length X - sequence_length l"
    by simp_all
  with assms(1) have "X_seq \<noteq> []" by auto
  with assms(2) cs obtain net predictions where "row_errors y_seq predictions = Inr scores"
    by (auto simp: LSTM_score_samples_def split: option.splits sum.splits)
  from row_errors_length[OF this] len show ?thesis by simp
qed

text \<open>
  For an input longer than the window, \<open>predict\<close> does what claim C6 says whenever it
  returns: one prediction per input row, the first \<open>k\<close> of them \<open>+1\<close>, the others \<open>-1\<close>
  exactly where the prediction error exceeds the threshold fixed at training time.
\<close>

theorem LSTM_predict_row_alignment:
  assumes "sequence_length l < length X" and "LSTM_predict l X = Inr predictions"
  shows "\<exists>scores thr. LSTM_score_samples l X = Inr scores \<and> threshold_value l = Some thr \<and>
           length predictions = length X \<and>
           take (sequence_length l) predictions = replicate (sequence_length l) 1 \<and>
           drop (sequence_length l) predictions =
             map (\<lambda>s. if fval_less (Fin thr) s then - 1 else 1) scores"
proof -
  from assms(2) obtain scores thr where s: "LSTM_score_samples l X = Inr scores"
    and t: "threshold_value l = Some thr"
    and a: "assign_tail (replicate (length X) 1) (sequence_length l)
                 (map (\<lambda>s. if fval_less (Fin thr) s then - 1 else 1) scores) = Inr predictions"
    by (auto simp: LSTM_predict_def split: sum.splits option.splits)
  from LSTM_score_samples_length[OF assms(1) s] have len: "length scores = length X - sequence_length l" .
  let ?labels = "map (\<lambda>s. if fval_less (Fin thr) s then - 1 else 1) scores"
  from a len have p: "predictions = take (sequence_length l) (replicate (length X) 1) @ ?labels"
    by (simp add: assign_tail_def)
  have tk: "take (sequence_length l) (replicate (length X) (1::rat)) = replicate (sequence_length l) 1"
    using assms(1) by (simp add: min_def)
  from p tk len assms(1) have "length predictions = length X"
    "take (sequence_length l) predictions = replicate (sequence_length l) 1"
    "drop (sequence_length l) predictions = ?labels" by simp_all
  with s t show ?thesis by blast
qed

theorem LSTM_predict_row_alignment_witness:
  "sequence_length (fitted_lstm 2) < length five_rows \<and>
   LSTM_predict (fitted_lstm 2) five_rows = Inr [1, 1, - 1, 1, 1] \<and>
   LSTM_score_samples (fitted_lstm 2) five_rows = Inr [Fin 9, Fin 0, Fin 0] \<and>
   threshold_value (fitted_lstm 2) = Some 1 \<and>
   take 2 [1, 1, - 1, 1, 1 :: rat] = replicate 2 1 \<and>
   drop 2 [1, 1, - 1, 1, 1 :: rat] = map (\<lambda>s. if fval_less (Fin 1) s then - 1 else 1) [Fin 9, Fin 0, Fin 0]"
proof -
  have h1: "sequence_length (fitted_lstm 2) < length five_rows" by code_simp
  have h2: "LSTM_predict (fitted_lstm 2) five_rows = Inr [1, 1, - 1, 1, 1]" by code_simp
  have s: "LSTM_score_samples (fitted_lstm 2) five_rows = Inr [Fin 9, Fin 0, Fin 0]" by code_simp
  have t: "threshold_value (fitted_lstm 2) = Some 1" by code_simp
  have k: "sequence_length (fitted_lstm 2) = 2" by code_simp
  from LSTM_predict_row_alignment[OF h1 h2] show ?thesis
    unfolding s t k using h1 h2 by auto
qed

section \<open>Training all models\<close>





section \<open>Feature engineering\<close>




















end
